theory Spec2Isabelle
  imports Main "HOL-Library.Signed_Division"
begin

section \<open>Data model\<close>

text \<open>
  A Go \<open>rune\<close> is an \<open>int32\<close>. The program compares runes, uses them as map keys and
  does arithmetic only on loop indices between \<open>'1'\<close> and \<open>'I'\<close>, so no operation
  can overflow and a rune is modelled as an \<open>int\<close>. The code points that occur:
  \<open>'.'\<close> = 46, \<open>'1'\<close> = 49, \<open>'9'\<close> = 57, \<open>'A'\<close> = 65, \<open>'I'\<close> = 73.
  A Go \<open>string\<close> is a byte sequence, modelled as \<open>string\<close> (a list of \<open>char\<close>, one per byte).
  The grid is a \<open>map[string]rune\<close>; reading a missing key yields the zero rune.
\<close>

type_synonym rune = int

type_synonym grid = "string \<rightharpoonup> rune"

text \<open>
  A computation of the program returns a value, panics (index out of range, assignment to
  an entry of a nil map) or, in the model of the recursive search only, exhausts the
  recursion depth it was given.
\<close>

datatype 'a outcome = Done 'a | Panic | NoFuel

fun obind :: "'a outcome \<Rightarrow> ('a \<Rightarrow> 'b outcome) \<Rightarrow> 'b outcome" where
  "obind (Done x) f = f x"
| "obind Panic f = Panic"
| "obind NoFuel f = NoFuel"

definition lookup :: "grid \<Rightarrow> string \<Rightarrow> rune" where
  "lookup g pos = (case g pos of None \<Rightarrow> 0 | Some v \<Rightarrow> v)"

text \<open>\<open>string(r)\<close> for a rune \<open>r\<close>: the UTF-8 encoding of the code point, and of U+FFFD
  for a value that is no valid code point.\<close>

definition runeString :: "rune \<Rightarrow> string" where
  "runeString r =
     (if r < 0 \<or> 1114111 < r \<or> (55296 \<le> r \<and> r \<le> 57343)
        then [char_of (239::int), char_of (191::int), char_of (189::int)]
      else if r < 128 then [char_of r]
      else if r < 2048 then [char_of (192 + r div 64), char_of (128 + r mod 64)]
      else if r < 65536
        then [char_of (224 + r div 4096), char_of (128 + r div 64 mod 64), char_of (128 + r mod 64)]
      else [char_of (240 + r div 262144), char_of (128 + r div 4096 mod 64),
            char_of (128 + r div 64 mod 64), char_of (128 + r mod 64)])"

text \<open>The loops \<open>for i := 'A'; i <= 'I'; i++\<close> and \<open>for j := '1'; j <= '9'; j++\<close>.\<close>

definition rowRunes :: "rune list" where
  "rowRunes = [65..73]"

definition colRunes :: "rune list" where
  "colRunes = [49..57]"

text \<open>The nested loops over rows and columns visit the pairs \<open>(i, j)\<close> in row-major order.\<close>

definition cells :: "(rune \<times> rune) list" where
  "cells = List.product rowRunes colRunes"

text \<open>\<open>string(i) + string(j)\<close>\<close>

definition key :: "rune \<Rightarrow> rune \<Rightarrow> string" where
  "key i j = runeString i @ runeString j"

text \<open>\<open>string('A'+(i-'A')/3*3) + string('1'+(j-'1')/3*3)\<close>; Go's \<open>/\<close> truncates towards zero.\<close>

definition subgridOf :: "rune \<Rightarrow> rune \<Rightarrow> string" where
  "subgridOf i j = runeString (65 + (i - 65) sdiv 3 * 3) @ runeString (49 + (j - 49) sdiv 3 * 3)"

section \<open>Parser.go\<close>

datatype error =
    ExpectedNineRows int
  | RowNotNineLong int
  | InvalidCharacter int
  | LessThan17Clues int
  | ContainsConflicts
  | EntireGridEmpty

text \<open>
  \<open>isValid\<close>: \<open>pos[0]\<close> and \<open>pos[1]\<close> are bytes of the key and panic on a key shorter than two
  bytes. The three scans return at the first duplicate.
\<close>

definition isValid :: "grid \<Rightarrow> string \<Rightarrow> rune \<Rightarrow> bool outcome" where
  "isValid g pos num =
     (case pos of
        b0 # b1 # _ \<Rightarrow>
          (let row = of_char b0; col = of_char b1 in
           if \<exists>i \<in> set colRunes. lookup g (runeString row @ runeString i) = num then Done False
           else if \<exists>i \<in> set rowRunes. lookup g (runeString i @ runeString col) = num then Done False
           else
             (let startRow = 65 + (row - 65) sdiv 3 * 3;
                  startCol = 49 + (col - 49) sdiv 3 * 3 in
              if \<exists>(i, j) \<in> set (List.product [0..2] [0..2]).
                   lookup g (runeString (startRow + i) @ runeString (startCol + j)) = num
              then Done False else Done True))
      | _ \<Rightarrow> Panic)"

text \<open>
  \<open>validateInitialGrid\<close> ranges over the map, in an order Go leaves unspecified: the order
  is the parameter \<open>order\<close>, the list of the keys as the loop visits them. The map is shared
  with the caller, so the function returns it next to its result. On a conflict the
  function returns before the cell under test is restored.
\<close>

fun validateInitialGrid :: "string list \<Rightarrow> grid \<Rightarrow> (bool \<times> grid) outcome" where
  "validateInitialGrid [] g = Done (True, g)"
| "validateInitialGrid (pos # rest) g =
     (let val = lookup g pos in
      if val \<noteq> 46 then
        (let original = lookup g pos;
             g1 = g(pos \<mapsto> 46) in
         obind (isValid g1 pos original) (\<lambda>ok.
           if \<not> ok then Done (False, g1)
           else validateInitialGrid rest (g1(pos \<mapsto> original))))
      else validateInitialGrid rest g)"

text \<open>\<open>isEmptyGrid\<close> ranges over the map as well; \<open>order\<close> lists the keys as visited.\<close>

definition isEmptyGrid :: "string list \<Rightarrow> grid \<Rightarrow> bool" where
  "isEmptyGrid order g = (\<forall>pos \<in> set order. lookup g pos = 46)"

definition rowNames :: "rune list" where
  "rowNames = [65, 66, 67, 68, 69, 70, 71, 72, 73]"

text \<open>
  The inner loop of \<open>ParseInput\<close>, \<open>for j, char := range row\<close>, decodes the row as UTF-8;
  \<open>j\<close> is the byte offset of the rune. A byte below 128 is its own rune. At the first byte
  from 128 on, the decoded rune is 128 or more (or U+FFFD), so it fails the character test
  exactly as the byte's own value does, and the function returns the same error. The
  model therefore walks the bytes.
\<close>

fun parseRow :: "int \<Rightarrow> nat \<Rightarrow> string \<Rightarrow> grid \<times> int \<Rightarrow> error + grid \<times> int" where
  "parseRow i j [] (g, clueCount) = Inr (g, clueCount)"
| "parseRow i j (b # bs) (g, clueCount) =
     (let char = of_char b in
      if (char < 49 \<or> char > 57) \<and> char \<noteq> 46 then Inl (InvalidCharacter i)
      else
        (let pos = runeString (rowNames ! nat (i - 1)) @ runeString (49 + int j) in
         parseRow i (Suc j) bs (g(pos \<mapsto> char), if char \<noteq> 46 then clueCount + 1 else clueCount)))"

fun parseRows :: "string list \<Rightarrow> int list \<Rightarrow> grid \<times> int \<Rightarrow> error + grid \<times> int" where
  "parseRows args [] acc = Inr acc"
| "parseRows args (i # is) acc =
     (let row = args ! nat i in
      if length row \<noteq> 9 then Inl (RowNotNineLong i)
      else (case parseRow i 0 row acc of
              Inl e \<Rightarrow> Inl e
            | Inr acc' \<Rightarrow> parseRows args is acc'))"

text \<open>
  \<open>ParseInput\<close> reads \<open>os.Args\<close>, here the parameter \<open>args\<close> (program name first).
  \<open>vorder\<close> and \<open>eorder\<close> are the orders in which \<open>validateInitialGrid\<close> and \<open>isEmptyGrid\<close>
  visit the keys of the grid.
\<close>

definition ParseInput :: "string list \<Rightarrow> string list \<Rightarrow> string list \<Rightarrow> (error + grid) outcome" where
  "ParseInput vorder eorder args =
     (if length args \<noteq> 10 then Done (Inl (ExpectedNineRows (int (length args) - 1)))
      else
        (case parseRows args [1..9] (Map.empty, 0) of
           Inl e \<Rightarrow> Done (Inl e)
         | Inr (g, clueCount) \<Rightarrow>
             if clueCount < 17 then Done (Inl (LessThan17Clues clueCount))
             else
               obind (validateInitialGrid vorder g) (\<lambda>(ok, g').
                 if \<not> ok then Done (Inl ContainsConflicts)
                 else if isEmptyGrid eorder g' then Done (Inl EntireGridEmpty)
                 else Done (Inr g'))))"

section \<open>The solver\<close>

text \<open>
  The tracking maps are maps of maps. Reading through a missing (nil) inner map yields
  \<open>false\<close>; assigning to an entry of a nil inner map panics.
\<close>

type_synonym 'k used = "'k \<rightharpoonup> (rune \<rightharpoonup> bool)"

definition used_get :: "'k used \<Rightarrow> 'k \<Rightarrow> rune \<Rightarrow> bool" where
  "used_get u k num =
     (case u k of None \<Rightarrow> False
      | Some m \<Rightarrow> (case m num of None \<Rightarrow> False | Some b \<Rightarrow> b))"

definition used_put :: "'k used \<Rightarrow> 'k \<Rightarrow> rune \<Rightarrow> bool \<Rightarrow> 'k used outcome" where
  "used_put u k num b =
     (case u k of None \<Rightarrow> Panic
      | Some m \<Rightarrow> Done (u(k \<mapsto> m(num \<mapsto> b))))"

text \<open>The variables that the closures \<open>findNextCell\<close> and \<open>solve\<close> share and mutate.\<close>

record state =
  grid :: grid
  usedRows :: "rune used"
  usedCols :: "rune used"
  usedSubgrids :: "string used"
  solutionCount :: nat
  solvedGrid :: grid

text \<open>The two initialisation loops, and the loop that populates the tracking maps.\<close>

definition initUsed :: "rune list \<Rightarrow> rune used" where
  "initUsed ks = fold (\<lambda>i u. u(i \<mapsto> Map.empty)) ks Map.empty"

fun populate :: "(rune \<times> rune) list \<Rightarrow> state \<Rightarrow> state outcome" where
  "populate [] s = Done s"
| "populate ((i, j) # rest) s =
     (let pos = key i j;
          val = lookup (grid s) pos in
      if val \<noteq> 46 then
        obind (used_put (usedRows s) i val True) (\<lambda>ur.
        obind (used_put (usedCols s) j val True) (\<lambda>uc.
          (let subgrid = subgridOf i j;
               us0 = (if usedSubgrids s subgrid = None
                      then (usedSubgrids s)(subgrid \<mapsto> Map.empty) else usedSubgrids s) in
           obind (used_put us0 subgrid val True) (\<lambda>us.
             populate rest (s\<lparr>usedRows := ur, usedCols := uc, usedSubgrids := us\<rparr>)))))
      else populate rest s)"

text \<open>The test \<open>!usedRows[i][num] && !usedCols[j][num] && !usedSubgrids[subgrid][num]\<close>.\<close>

definition canPlace :: "state \<Rightarrow> rune \<Rightarrow> rune \<Rightarrow> string \<Rightarrow> rune \<Rightarrow> bool" where
  "canPlace s i j subgrid num =
     (\<not> used_get (usedRows s) i num \<and> \<not> used_get (usedCols s) j num
      \<and> \<not> used_get (usedSubgrids s) subgrid num)"

definition countOptions :: "state \<Rightarrow> rune \<Rightarrow> rune \<Rightarrow> int" where
  "countOptions s i j =
     fold (\<lambda>num options. if canPlace s i j (subgridOf i j) num then options + 1 else options)
       colRunes 0"

text \<open>The body of the two nested loops of \<open>findNextCell\<close>, at the cell \<open>(i, j)\<close>.\<close>

fun scanCell :: "state \<Rightarrow> rune \<times> rune \<Rightarrow> int \<times> string \<Rightarrow> int \<times> string" where
  "scanCell s (i, j) (minOptions, bestCell) =
     (let pos = key i j in
      if lookup (grid s) pos = 46 then
        (let options = countOptions s i j in
         if options < minOptions then (options, pos) else (minOptions, bestCell))
      else (minOptions, bestCell))"

definition findNextCell :: "state \<Rightarrow> string \<times> int" where
  "findNextCell s =
     (case fold (scanCell s) cells (10, []) of
        (minOptions, bestCell) \<Rightarrow> (bestCell, minOptions))"

text \<open>
  \<open>copyGrid\<close> ranges over \<open>src\<close>; \<open>order\<close> lists the keys of \<open>src\<close> as the loop visits them.
\<close>

definition copyGrid :: "string list \<Rightarrow> grid \<Rightarrow> grid \<Rightarrow> grid" where
  "copyGrid order src dest =
     fold (\<lambda>k d. case src k of None \<Rightarrow> d | Some v \<Rightarrow> d(k \<mapsto> v)) order dest"

text \<open>
  The body of the loop \<open>for num := '1'; num <= '9'; num++\<close> of \<open>solve\<close>, with the recursive
  call \<open>solve()\<close> as the parameter \<open>rec\<close> and the digits still to try as a list. When the
  counter exceeds 1 the function returns \<open>false\<close> before the undo.
\<close>

fun tryDigits :: "(state \<Rightarrow> (bool \<times> state) outcome) \<Rightarrow> string list \<Rightarrow> string \<Rightarrow> rune \<Rightarrow> rune
    \<Rightarrow> string \<Rightarrow> rune list \<Rightarrow> state \<Rightarrow> (bool \<times> state) outcome" where
  "tryDigits rec order pos row col subgrid [] s = Done (False, s)"
| "tryDigits rec order pos row col subgrid (num # nums) s =
     (if canPlace s row col subgrid num then
        (let s1 = s\<lparr>grid := (grid s)(pos \<mapsto> num)\<rparr> in
         obind (used_put (usedRows s1) row num True) (\<lambda>ur.
         obind (used_put (usedCols s1) col num True) (\<lambda>uc.
         obind (used_put (usedSubgrids s1) subgrid num True) (\<lambda>us.
         obind (rec (s1\<lparr>usedRows := ur, usedCols := uc, usedSubgrids := us\<rparr>)) (\<lambda>(found, s2).
           (let s3 = (if found then
                        (let s' = s2\<lparr>solutionCount := solutionCount s2 + 1\<rparr> in
                         if solutionCount s' = 1
                         then s'\<lparr>solvedGrid := copyGrid order (grid s') (solvedGrid s')\<rparr>
                         else s')
                      else s2) in
            if found \<and> solutionCount s3 > 1 then Done (False, s3)
            else
              (let s4 = s3\<lparr>grid := (grid s3)(pos \<mapsto> 46)\<rparr> in
               obind (used_put (usedRows s4) row num False) (\<lambda>ur'.
               obind (used_put (usedCols s4) col num False) (\<lambda>uc'.
               obind (used_put (usedSubgrids s4) subgrid num False) (\<lambda>us'.
                 tryDigits rec order pos row col subgrid nums
                   (s4\<lparr>usedRows := ur', usedCols := uc', usedSubgrids := us'\<rparr>)))))))))))
      else tryDigits rec order pos row col subgrid nums s)"

text \<open>
  \<open>solve\<close>, with the depth of recursion it may use as first argument: \<open>NoFuel\<close> when the
  depth is exhausted. \<open>pos[0]\<close> and \<open>pos[1]\<close> panic on a key shorter than two bytes.
\<close>

fun solve :: "nat \<Rightarrow> string list \<Rightarrow> state \<Rightarrow> (bool \<times> state) outcome" where
  "solve 0 order s = NoFuel"
| "solve (Suc n) order s =
     (case findNextCell s of
        (pos, minOptions) \<Rightarrow>
          if pos = [] then Done (True, s)
          else if minOptions = 0 then Done (False, s)
          else
            (case pos of
               b0 # b1 # _ \<Rightarrow>
                 (let row = of_char b0; col = of_char b1 in
                  tryDigits (solve n order) order pos row col (subgridOf row col) colRunes s)
             | _ \<Rightarrow> Panic))"

text \<open>
  \<open>SolveSudoku\<close>. A call of \<open>solve\<close> fills a blank cell before it recurses, and the grid has
  81 cells, so a depth of 82 is never exhausted (lemma \<open>solve_fuel\<close> below). \<open>order\<close> is
  the order in which \<open>copyGrid\<close>, called at most once, visits the keys of the grid. On
  failure the function returns the map it was given, as the search left it.
\<close>

definition initState :: "grid \<Rightarrow> state" where
  "initState g =
     \<lparr>grid = g, usedRows = initUsed rowRunes, usedCols = initUsed colRunes,
      usedSubgrids = Map.empty, solutionCount = 0, solvedGrid = Map.empty\<rparr>"

definition runSolve :: "string list \<Rightarrow> grid \<Rightarrow> (bool \<times> state) outcome" where
  "runSolve order g = obind (populate cells (initState g)) (solve 82 order)"

definition SolveSudoku :: "string list \<Rightarrow> grid \<Rightarrow> (grid \<times> bool) outcome" where
  "SolveSudoku order g =
     obind (runSolve order g) (\<lambda>(r, s).
       if solutionCount s \<noteq> 1 then Done (grid s, False)
       else Done (solvedGrid s, True))"

section \<open>Notions of the specification\<close>

text \<open>
  A cell is a pair \<open>(i, j)\<close> of a row rune \<open>'A'..'I'\<close> and a column rune \<open>'1'..'9'\<close>;
  \<open>keyp\<close> is its key in the grid and \<open>cellv\<close> the rune the grid holds there.
\<close>

definition keyp :: "rune \<times> rune \<Rightarrow> string" where
  "keyp p = key (fst p) (snd p)"

definition cellv :: "grid \<Rightarrow> rune \<times> rune \<Rightarrow> rune" where
  "cellv g p = lookup g (keyp p)"

text \<open>The 81 keys \<open>"A1"\<close> to \<open>"I9"\<close>, in row-major order.\<close>

definition allKeys :: "string list" where
  "allKeys = map keyp cells"

text \<open>A character the parser accepts, and the number of clue characters of the rows.\<close>

definition validChar :: "char \<Rightarrow> bool" where
  "validChar b \<longleftrightarrow> (49 \<le> (of_char b :: int) \<and> (of_char b :: int) \<le> 57) \<or> (of_char b :: int) = 46"

definition clueChars :: "string list \<Rightarrow> int" where
  "clueChars rows = int (length (filter (\<lambda>b. (of_char b :: int) \<noteq> 46) (concat rows)))"

text \<open>Arguments of the right shape: the program name, then nine rows of nine accepted characters.\<close>

definition wellFormed :: "string list \<Rightarrow> bool" where
  "wellFormed args \<longleftrightarrow>
     length args = 10 \<and> (\<forall>row \<in> set (tl args). length row = 9 \<and> (\<forall>b \<in> set row. validChar b))"

text \<open>The grid that the parsing loops of \<open>ParseInput\<close> build from the arguments.\<close>

definition parsedGrid :: "string list \<Rightarrow> grid" where
  "parsedGrid args = (case parseRows args [1..9] (Map.empty, 0) of Inr (g, c) \<Rightarrow> g | Inl e \<Rightarrow> Map.empty)"

text \<open>
  Two cells are related when they share a row, a column or a 3x3 box. A grid has no
  conflict when no non-blank value occurs in two related cells.
\<close>

definition boxOf :: "rune \<times> rune \<Rightarrow> int \<times> int" where
  "boxOf p = ((fst p - 65) div 3, (snd p - 49) div 3)"

definition related :: "rune \<times> rune \<Rightarrow> rune \<times> rune \<Rightarrow> bool" where
  "related p q \<longleftrightarrow> fst p = fst q \<or> snd p = snd q \<or> boxOf p = boxOf q"

definition noconflict :: "grid \<Rightarrow> bool" where
  "noconflict g \<longleftrightarrow>
     (\<forall>p \<in> set cells. \<forall>q \<in> set cells.
        p \<noteq> q \<and> related p q \<and> cellv g p \<noteq> 46 \<longrightarrow> cellv g p \<noteq> cellv g q)"

text \<open>Every cell holds a digit \<open>'1'..'9'\<close> or the blank \<open>'.'\<close>; the clue cells are the non-blank ones.\<close>

definition cellValues :: "grid \<Rightarrow> bool" where
  "cellValues g \<longleftrightarrow> (\<forall>p \<in> set cells. cellv g p = 46 \<or> (49 \<le> cellv g p \<and> cellv g p \<le> 57))"

definition clueCells :: "grid \<Rightarrow> (rune \<times> rune) set" where
  "clueCells g = {p \<in> set cells. cellv g p \<noteq> 46}"

text \<open>
  The 27 units (rows, columns, boxes) as lists of cells, and an executable test of
  \<open>noconflict\<close>: the non-blank values of every unit are distinct.
\<close>

definition rowUnits :: "(rune \<times> rune) list list" where
  "rowUnits = map (\<lambda>i. map (Pair i) colRunes) rowRunes"

definition colUnits :: "(rune \<times> rune) list list" where
  "colUnits = map (\<lambda>j. map (\<lambda>i. (i, j)) rowRunes) colRunes"

definition boxUnits :: "(rune \<times> rune) list list" where
  "boxUnits = map (\<lambda>(a, b). List.product [a..a + 2] [b..b + 2])
     (List.product [65, 68, 71] [49, 52, 55])"

definition units :: "(rune \<times> rune) list list" where
  "units = rowUnits @ colUnits @ boxUnits"

definition unitsOK :: "grid \<Rightarrow> bool" where
  "unitsOK g = list_all (\<lambda>u. distinct (filter (\<lambda>v. v \<noteq> 46) (map (cellv g) u))) units"

section \<open>Example inputs\<close>

text \<open>A solved grid with the cell A1 blanked: 80 clues, no conflict.\<close>

definition argsA :: "string list" where
  "argsA = [''sudoku'', ''.96245781'', ''178369524'', ''524817396'', ''287951643'', ''931486275'',
            ''465723918'', ''712638459'', ''659174832'', ''843592167'']"

definition gridA :: grid where
  "gridA = parsedGrid argsA"

text \<open>Two clues, both 5, in row A.\<close>

definition argsFew :: "string list" where
  "argsFew = [''sudoku'', ''55.......'', ''.........'', ''.........'', ''.........'', ''.........'',
              ''.........'', ''.........'', ''.........'', ''.........'']"

text \<open>The grid of 81 blanks.\<close>

definition argsEmpty :: "string list" where
  "argsEmpty = [''sudoku'', ''.........'', ''.........'', ''.........'', ''.........'', ''.........'',
                ''.........'', ''.........'', ''.........'', ''.........'']"

text \<open>The solved grid with A1 changed to 9, which row A already holds at A2.\<close>

definition argsBad :: "string list" where
  "argsBad = [''sudoku'', ''996245781'', ''178369524'', ''524817396'', ''287951643'', ''931486275'',
              ''465723918'', ''712638459'', ''659174832'', ''843592167'']"

definition gridBad :: grid where
  "gridBad = parsedGrid argsBad"

section \<open>Basic facts\<close>

lemma obind_Done_iff: "obind m f = Done y \<longleftrightarrow> (\<exists>x. m = Done x \<and> f x = Done y)"
  by (cases m) auto

lemma runeString_ascii: "0 \<le> r \<Longrightarrow> r < 128 \<Longrightarrow> runeString r = [char_of r]"
  by (simp add: runeString_def)

lemma set_rowRunes: "set rowRunes = {65..73}"
  unfolding rowRunes_def by (rule set_upto)

lemma set_colRunes: "set colRunes = {49..57}"
  unfolding colRunes_def by (rule set_upto)

lemma set_cells: "set cells = {65..73} \<times> {49..57}"
  by (simp add: cells_def set_rowRunes set_colRunes)

lemma distinct_cells: "distinct cells"
  by (simp add: cells_def rowRunes_def colRunes_def distinct_product)

lemma length_cells: "length cells = 81"
  by (simp add: cells_def rowRunes_def colRunes_def)

lemma key_cell: "(i, j) \<in> set cells \<Longrightarrow> key i j = [char_of i, char_of j]"
  by (simp add: set_cells key_def runeString_ascii)

lemma of_char_char_of_small: "0 \<le> (r::int) \<Longrightarrow> r < 256 \<Longrightarrow> of_char (char_of r) = r"
  by simp

lemma key_inj:
  assumes "(i, j) \<in> set cells" "(i', j') \<in> set cells" "key i j = key i' j'"
  shows "i = i' \<and> j = j'"
proof -
  from assms have e: "char_of i = char_of i'" "char_of j = char_of j'"
    by (simp_all add: key_cell)
  from assms(1,2) have r: "0 \<le> i" "i < 256" "0 \<le> i'" "i' < 256" "0 \<le> j" "j < 256" "0 \<le> j'" "j' < 256"
    by (auto simp: set_cells)
  from e(1) have "(of_char (char_of i) :: int) = of_char (char_of i')" by simp
  with r have "i = i'" by simp
  moreover from e(2) have "(of_char (char_of j) :: int) = of_char (char_of j')" by simp
  with r have "j = j'" by simp
  ultimately show ?thesis by simp
qed

lemma key_nonempty: "key i j \<noteq> []"
  by (simp add: key_def runeString_def)

lemma rowNames_nth: "1 \<le> i \<Longrightarrow> i \<le> 9 \<Longrightarrow> rowNames ! nat (i - 1) = 64 + i"
proof -
  assume "1 \<le> i" "i \<le> 9"
  then have "i = 1 \<or> i = 2 \<or> i = 3 \<or> i = 4 \<or> i = 5 \<or> i = 6 \<or> i = 7 \<or> i = 8 \<or> i = 9"
    by arith
  then show ?thesis by (auto simp: rowNames_def)
qed

lemma sdiv_nonneg: "0 \<le> (a::int) \<Longrightarrow> a sdiv 3 = a div 3"
  by (simp add: signed_divide_int_def sgn_if)

lemma keyp_inj: "p \<in> set cells \<Longrightarrow> q \<in> set cells \<Longrightarrow> keyp p = keyp q \<Longrightarrow> p = q"
  using key_inj [of "fst p" "snd p" "fst q" "snd q"] by (simp add: keyp_def prod_eq_iff)

lemma cellv_upd: "p \<in> set cells \<Longrightarrow> q \<in> set cells \<Longrightarrow>
    cellv (g(keyp q \<mapsto> v)) p = (if p = q then v else cellv g p)"
  by (auto simp: cellv_def lookup_def dest: keyp_inj)

lemma parseRow_count:
  "\<forall>b \<in> set bs. validChar b \<Longrightarrow>
   \<exists>g'. parseRow i j bs (g, c) = Inr (g', c + clueChars [bs])"
proof (induction bs arbitrary: j g c)
  case Nil
  then show ?case by (simp add: clueChars_def)
next
  case (Cons b bs)
  from Cons.prems have v: "validChar b" and rest: "\<forall>b \<in> set bs. validChar b" by simp_all
  let ?pos = "runeString (rowNames ! nat (i - 1)) @ runeString (49 + int j)"
  let ?c1 = "if (of_char b :: int) \<noteq> 46 then c + 1 else c"
  from Cons.IH [OF rest, of "Suc j" "g(?pos \<mapsto> of_char b)" ?c1]
  obtain g' where "parseRow i (Suc j) bs (g(?pos \<mapsto> of_char b), ?c1) = Inr (g', ?c1 + clueChars [bs])"
    by blast
  moreover have "?c1 + clueChars [bs] = c + clueChars [b # bs]"
    by (simp add: clueChars_def)
  ultimately show ?case using v
    by (auto simp: validChar_def Let_def)
qed

lemma parseRows_count:
  "\<forall>i \<in> set is. length (args ! nat i) = 9 \<and> (\<forall>b \<in> set (args ! nat i). validChar b) \<Longrightarrow>
   \<exists>g'. parseRows args is (g, c) = Inr (g', c + clueChars (map (\<lambda>i. args ! nat i) is))"
proof (induction "is" arbitrary: g c)
  case Nil
  then show ?case by (simp add: clueChars_def)
next
  case (Cons i "is")
  from Cons.prems have len: "length (args ! nat i) = 9" and v: "\<forall>b \<in> set (args ! nat i). validChar b"
    and rest: "\<forall>i \<in> set is. length (args ! nat i) = 9 \<and> (\<forall>b \<in> set (args ! nat i). validChar b)"
    by simp_all
  from parseRow_count [OF v, of i 0 g c]
  obtain g1 where r: "parseRow i 0 (args ! nat i) (g, c) = Inr (g1, c + clueChars [args ! nat i])"
    by blast
  from Cons.IH [OF rest, of g1 "c + clueChars [args ! nat i]"]
  obtain g' where "parseRows args is (g1, c + clueChars [args ! nat i])
      = Inr (g', c + clueChars [args ! nat i] + clueChars (map (\<lambda>i. args ! nat i) is))"
    by blast
  moreover have "clueChars (map (\<lambda>i. args ! nat i) (i # is))
      = clueChars [args ! nat i] + clueChars (map (\<lambda>i. args ! nat i) is)"
    by (simp add: clueChars_def)
  ultimately show ?case using len r
    by (simp add: add.assoc)
qed

lemma rows_of_args:
  assumes "length args = 10"
  shows "map (\<lambda>i. args ! nat i) [1..9] = tl args"
proof -
  from assms obtain a0 a1 a2 a3 a4 a5 a6 a7 a8 a9 where
    "args = [a0, a1, a2, a3, a4, a5, a6, a7, a8, a9]"
    by (auto simp: numeral_eq_Suc length_Suc_conv)
  then show ?thesis by (simp add: upto_rec1)
qed

lemma ParseInput_unfold:
  assumes "length args = 10" and "parseRows args [1..9] (Map.empty, 0) = R"
  shows "ParseInput vorder eorder args =
     (case R of
        Inl e \<Rightarrow> Done (Inl e)
      | Inr (g, clueCount) \<Rightarrow>
          if clueCount < 17 then Done (Inl (LessThan17Clues clueCount))
          else
            obind (validateInitialGrid vorder g) (\<lambda>(ok, g').
              if \<not> ok then Done (Inl ContainsConflicts)
              else if isEmptyGrid eorder g' then Done (Inl EntireGridEmpty)
              else Done (Inr g')))"
  unfolding ParseInput_def assms(2) using assms(1) by simp

lemma too_few: 
  assumes "length args = 10"
    and "\<forall>row \<in> set (tl args). length row = 9 \<and> (\<forall>b \<in> set row. validChar b)"
    and "clueChars (tl args) < 17"
  shows "ParseInput vorder eorder args = Done (Inl (LessThan17Clues (clueChars (tl args))))"
proof -
  have rows: "map (\<lambda>i. args ! nat i) [1..9] = tl args"
    by (rule rows_of_args [OF assms(1)])
  have "\<forall>i \<in> set [1..9]. length (args ! nat i) = 9 \<and> (\<forall>b \<in> set (args ! nat i). validChar b)"
  proof
    fix i assume "i \<in> set [1..9]"
    moreover have "\<And>xs. i \<in> set xs \<Longrightarrow> args ! nat i \<in> set (map (\<lambda>i. args ! nat i) xs)"
      by simp
    ultimately have "args ! nat i \<in> set (map (\<lambda>i. args ! nat i) [1..9])"
      by blast
    then have "args ! nat i \<in> set (tl args)" by (simp only: rows)
    with assms(2) show "length (args ! nat i) = 9 \<and> (\<forall>b \<in> set (args ! nat i). validChar b)"
      by blast
  qed
  from parseRows_count [OF this, of Map.empty 0]
  obtain g' where "parseRows args [1..9] (Map.empty, 0)
      = Inr (g', 0 + clueChars (map (\<lambda>i. args ! nat i) [1..9]))"
    by blast
  then have p: "parseRows args [1..9] (Map.empty, 0) = Inr (g', clueChars (tl args))"
    by (simp only: rows add_0)
  show ?thesis
    unfolding ParseInput_unfold [OF assms(1) p] using assms(3) by simp
qed

lemma parseRow_inv:
  assumes "parseRow i j bs (g, c) = Inr (g', c')" "1 \<le> i" "i \<le> 9" "j + length bs \<le> 9"
    and "dom g = keyp ` D" "D \<subseteq> set cells" "\<forall>n. j \<le> n \<longrightarrow> (64 + i, 49 + int n) \<notin> D"
    and "c = int (card {p \<in> D. cellv g p \<noteq> 46})"
    and "\<forall>p \<in> D. cellv g p = 46 \<or> (49 \<le> cellv g p \<and> cellv g p \<le> 57)"
  shows "dom g' = keyp ` (D \<union> {(64 + i, 49 + int n) | n. j \<le> n \<and> n < j + length bs})
    \<and> c' = int (card {p \<in> D \<union> {(64 + i, 49 + int n) | n. j \<le> n \<and> n < j + length bs}. cellv g' p \<noteq> 46})
    \<and> (\<forall>p \<in> D \<union> {(64 + i, 49 + int n) | n. j \<le> n \<and> n < j + length bs}.
          cellv g' p = 46 \<or> (49 \<le> cellv g' p \<and> cellv g' p \<le> 57))"
  using assms
proof (induction bs arbitrary: j g c D)
  case Nil
  from Nil.prems(1) have gc: "g' = g" "c' = c" by simp_all
  have e: "D \<union> {(64 + i, 49 + int n) | n. j \<le> n \<and> n < j + length ([]::string)} = D"
    by auto
  show ?case unfolding e gc using Nil.prems(5,8,9) by blast
next
  case (Cons b bs)
  let ?ch = "of_char b :: int"
  let ?p0 = "(64 + i, 49 + int j)"
  let ?g1 = "g(keyp ?p0 \<mapsto> ?ch)"
  let ?c1 = "if ?ch \<noteq> 46 then c + 1 else c"
  let ?D1 = "insert ?p0 D"
  from Cons.prems(4) have j9: "j < 9" by simp
  with Cons.prems(2,3) have p0: "?p0 \<in> set cells" by (simp add: set_cells)
  from Cons.prems(7) have p0D: "?p0 \<notin> D" by blast
  have finD: "finite D" using Cons.prems(6) by (rule finite_subset) simp
  have pos: "runeString (rowNames ! nat (i - 1)) @ runeString (49 + int j) = keyp ?p0"
    using Cons.prems(2,3) by (simp add: rowNames_nth keyp_def key_def)
  from Cons.prems(1) have ok: "?ch = 46 \<or> (49 \<le> ?ch \<and> ?ch \<le> 57)"
    and rec: "parseRow i (Suc j) bs (?g1, ?c1) = Inr (g', c')"
    by (auto simp: Let_def pos split: if_splits)
  have D1: "?D1 \<subseteq> set cells" using p0 Cons.prems(6) by simp
  have cv0: "cellv ?g1 ?p0 = ?ch"
    using cellv_upd [OF p0 p0] by simp
  have cvD: "\<And>p. p \<in> D \<Longrightarrow> cellv ?g1 p = cellv g p"
  proof -
    fix p assume "p \<in> D"
    with p0D Cons.prems(6) have "p \<in> set cells" "p \<noteq> ?p0" by auto
    then show "cellv ?g1 p = cellv g p" using cellv_upd [OF _ p0, of p] by simp
  qed
  have a5: "dom ?g1 = keyp ` ?D1" using Cons.prems(5) by simp
  have a7: "\<forall>n. Suc j \<le> n \<longrightarrow> (64 + i, 49 + int n) \<notin> ?D1"
    using Cons.prems(7) by auto
  have setD: "{p \<in> D. cellv ?g1 p \<noteq> 46} = {p \<in> D. cellv g p \<noteq> 46}"
    by (rule Collect_cong) (simp add: cvD cong: conj_cong)
  have set1: "{p \<in> ?D1. cellv ?g1 p \<noteq> 46}
      = (if ?ch \<noteq> 46 then insert ?p0 {p \<in> D. cellv g p \<noteq> 46} else {p \<in> D. cellv g p \<noteq> 46})"
  proof -
    have "{p \<in> ?D1. cellv ?g1 p \<noteq> 46}
        = (if cellv ?g1 ?p0 \<noteq> 46 then {?p0} else {}) \<union> {p \<in> D. cellv ?g1 p \<noteq> 46}"
      by auto
    then show ?thesis unfolding cv0 setD by auto
  qed
  have a8: "?c1 = int (card {p \<in> ?D1. cellv ?g1 p \<noteq> 46})"
    unfolding set1 using finD p0D Cons.prems(8) by simp
  have a9: "\<forall>p \<in> ?D1. cellv ?g1 p = 46 \<or> (49 \<le> cellv ?g1 p \<and> cellv ?g1 p \<le> 57)"
    using cv0 cvD ok Cons.prems(9) by auto
  have len: "Suc j + length bs \<le> 9" using Cons.prems(4) by simp
  have eq: "?D1 \<union> {(64 + i, 49 + int n) | n. Suc j \<le> n \<and> n < Suc j + length bs}
      = D \<union> {(64 + i, 49 + int n) | n. j \<le> n \<and> n < j + length (b # bs)}"
    by (auto simp: Suc_le_eq le_less)
  from Cons.IH [OF rec Cons.prems(2,3) len a5 D1 a7 a8 a9]
  show ?case unfolding eq .
qed

lemma parseRows_inv:
  assumes "parseRows args [a..9] (g, c) = Inr (g', c')" "1 \<le> a" "a \<le> 10"
    and "dom g = keyp ` ({65..<64 + a} \<times> {49..57})"
    and "c = int (card {p \<in> {65..<64 + a} \<times> {49..57}. cellv g p \<noteq> 46})"
    and "\<forall>p \<in> {65..<64 + a} \<times> {49..57}. cellv g p = 46 \<or> (49 \<le> cellv g p \<and> cellv g p \<le> 57)"
  shows "dom g' = keyp ` set cells \<and> c' = int (card (clueCells g')) \<and> cellValues g'"
  using assms
proof (induction "nat (10 - a)" arbitrary: a g c)
  case 0
  then have a: "a = 10" by simp
  then have "[a..9] = []" by simp
  with "0.prems"(1) have "g' = g" "c' = c" by simp_all
  moreover have "{65..<64 + a} \<times> {49..57} = set cells"
    using a by (auto simp: set_cells)
  moreover have "clueCells g = {p \<in> set cells. cellv g p \<noteq> 46}"
    by (simp add: clueCells_def)
  ultimately show ?case using "0.prems"(4,5,6)
    by (simp add: cellValues_def)
next
  case (Suc n)
  let ?D = "{65..<64 + a} \<times> {49..57::int}"
  from Suc.hyps(2) have a9: "a \<le> 9" by simp
  then have up: "[a..9] = a # [a + 1..9]" by (simp add: upto_rec1)
  from Suc.prems(1) obtain g1 c1 where
    len: "length (args ! nat a) = 9"
    and r1: "parseRow a 0 (args ! nat a) (g, c) = Inr (g1, c1)"
    and r2: "parseRows args [a + 1..9] (g1, c1) = Inr (g', c')"
    unfolding up by (auto simp: Let_def split: if_splits sum.splits)
  have sub: "?D \<subseteq> set cells" using a9 by (auto simp: set_cells)
  have fresh: "\<forall>n. 0 \<le> n \<longrightarrow> (64 + a, 49 + int n) \<notin> ?D" by simp
  have l0: "0 + length (args ! nat a) \<le> 9" using len by simp
  have eq: "?D \<union> {(64 + a, 49 + int n) | n. 0 \<le> n \<and> n < 0 + length (args ! nat a)}
      = {65..<64 + (a + 1)} \<times> {49..57}"
  proof -
    have "{49 + int n | n. n < 9} = {49..57}"
    proof (rule set_eqI)
      fix x :: int
      have "x \<in> {49..57} \<Longrightarrow> \<exists>n. x = 49 + int n \<and> n < 9"
        by (rule exI [of _ "nat (x - 49)"]) auto
      then show "x \<in> {49 + int n | n. n < 9} \<longleftrightarrow> x \<in> {49..57}" by auto
    qed
    then have "{(64 + a, 49 + int n) | n. n < 9} = {64 + a} \<times> {49..57}" by auto
    moreover have "{65..<64 + (a + 1)} = insert (64 + a) {65..<64 + a}"
      using Suc.prems(2) by auto
    ultimately show ?thesis using len by auto
  qed
  from parseRow_inv [OF r1 Suc.prems(2) a9 l0 Suc.prems(4) sub fresh Suc.prems(5,6)]
  have i1: "dom g1 = keyp ` ({65..<64 + (a + 1)} \<times> {49..57})"
    and i2: "c1 = int (card {p \<in> {65..<64 + (a + 1)} \<times> {49..57}. cellv g1 p \<noteq> 46})"
    and i3: "\<forall>p \<in> {65..<64 + (a + 1)} \<times> {49..57}. cellv g1 p = 46 \<or> (49 \<le> cellv g1 p \<and> cellv g1 p \<le> 57)"
    unfolding eq by blast+
  have n: "n = nat (10 - (a + 1))" using Suc.hyps(2) by simp
  show ?case
    by (rule Suc.hyps(1) [OF n r2 _ _ i1 i2 i3]) (use Suc.prems(2) a9 in simp_all)
qed

lemma parse_grid:
  assumes "parseRows args [1..9] (Map.empty, 0) = Inr (g, c)"
  shows "dom g = keyp ` set cells \<and> c = int (card (clueCells g)) \<and> cellValues g"
  by (rule parseRows_inv [OF assms]) simp_all

lemma box_start:
  fixes i i' :: int
  shows "(i' - 65) div 3 = (i - 65) div 3 \<longleftrightarrow>
    65 + (i - 65) div 3 * 3 \<le> i' \<and> i' \<le> 65 + (i - 65) div 3 * 3 + 2"
  by presburger

lemma box_start_col:
  fixes j j' :: int
  shows "(j' - 49) div 3 = (j - 49) div 3 \<longleftrightarrow>
    49 + (j - 49) div 3 * 3 \<le> j' \<and> j' \<le> 49 + (j - 49) div 3 * 3 + 2"
  by presburger

lemma box_start_range:
  fixes i :: int
  assumes "65 \<le> i" "i \<le> 73"
  shows "65 \<le> 65 + (i - 65) div 3 * 3" "65 + (i - 65) div 3 * 3 + 2 \<le> 73"
  using assms by presburger+

lemma box_start_col_range:
  fixes j :: int
  assumes "49 \<le> j" "j \<le> 57"
  shows "49 \<le> 49 + (j - 49) div 3 * 3" "49 + (j - 49) div 3 * 3 + 2 \<le> 57"
  using assms by presburger+

lemma cellv_key: "cellv g (i, j) = lookup g (runeString i @ runeString j)"
  by (simp add: cellv_def keyp_def key_def)

lemma isValid_cell:
  assumes "p \<in> set cells"
  shows "isValid g (keyp p) v = Done (\<not> (\<exists>q \<in> set cells. related p q \<and> cellv g q = v))"
proof -
  obtain i j where p: "p = (i, j)" by (cases p)
  with assms have ij: "65 \<le> i" "i \<le> 73" "49 \<le> j" "j \<le> 57" by (simp_all add: set_cells)
  have k: "keyp p = [char_of i, char_of j]"
    using assms by (simp add: p keyp_def key_cell)
  have oi: "i mod 256 = i" and oj: "j mod 256 = j"
    using ij by simp_all
  let ?sr = "65 + (i - 65) div 3 * 3"
  let ?sc = "49 + (j - 49) div 3 * 3"
  have sd: "(i - 65) sdiv 3 = (i - 65) div 3" "(j - 49) sdiv 3 = (j - 49) div 3"
    using ij by (simp_all add: sdiv_nonneg)
  have A: "(\<exists>c \<in> set colRunes. lookup g (runeString i @ runeString c) = v)
      \<longleftrightarrow> (\<exists>q \<in> set cells. fst p = fst q \<and> cellv g q = v)"
    using ij by (auto simp: p set_cells set_colRunes cellv_key)
  have B: "(\<exists>r \<in> set rowRunes. lookup g (runeString r @ runeString j) = v)
      \<longleftrightarrow> (\<exists>q \<in> set cells. snd p = snd q \<and> cellv g q = v)"
    using ij by (auto simp: p set_cells set_rowRunes cellv_key)
  have C: "(\<exists>(a, b) \<in> set (List.product [0..2] [0..2]).
        lookup g (runeString (?sr + a) @ runeString (?sc + b)) = v)
      \<longleftrightarrow> (\<exists>q \<in> set cells. boxOf p = boxOf q \<and> cellv g q = v)" (is "?L \<longleftrightarrow> ?R")
  proof
    assume ?L
    then obtain a b where ab: "0 \<le> a" "a \<le> 2" "0 \<le> b" "b \<le> 2"
      and l: "cellv g (?sr + a, ?sc + b) = v"
      by (auto simp: cellv_key)
    have "(?sr + a, ?sc + b) \<in> set cells"
      using ab box_start_range [OF ij(1,2)] box_start_col_range [OF ij(3,4)]
      by (simp add: set_cells)
    moreover have "boxOf (?sr + a, ?sc + b) = boxOf p"
      using ab by (simp add: boxOf_def p box_start box_start_col)
    ultimately show ?R using l by (metis (no_types))
  next
    assume ?R
    then obtain i' j' where q: "(i', j') \<in> set cells" "boxOf p = boxOf (i', j')"
      and l: "cellv g (i', j') = v" by auto
    from q(2) [symmetric] have r: "?sr \<le> i'" "i' \<le> ?sr + 2" "?sc \<le> j'" "j' \<le> ?sc + 2"
      by (simp_all add: boxOf_def p box_start box_start_col)
    then have "(i' - ?sr, j' - ?sc) \<in> set (List.product [0..2] [0..2])" by simp
    moreover have "lookup g (runeString (?sr + (i' - ?sr)) @ runeString (?sc + (j' - ?sc))) = v"
      using l by (simp add: cellv_key)
    ultimately show ?L by blast
  qed
  have R: "(\<exists>q \<in> set cells. related p q \<and> cellv g q = v) \<longleftrightarrow>
      (\<exists>q \<in> set cells. fst p = fst q \<and> cellv g q = v) \<or> (\<exists>q \<in> set cells. snd p = snd q \<and> cellv g q = v)
      \<or> (\<exists>q \<in> set cells. boxOf p = boxOf q \<and> cellv g q = v)"
    unfolding related_def by blast
  show ?thesis
    unfolding R A [symmetric] B [symmetric] C [symmetric]
    by (simp add: isValid_def k oi oj sd Let_def del: set_upto)
qed

lemma restore_cell: "pos \<in> dom g \<Longrightarrow> (g(pos \<mapsto> 46))(pos \<mapsto> lookup g pos) = g"
  by (auto simp: lookup_def)

lemma restore_cell': "pos \<in> dom g \<Longrightarrow> g(pos \<mapsto> lookup g pos) = g"
  by (auto simp: lookup_def)

lemma validate_False:
  "set order \<subseteq> dom g \<Longrightarrow> validateInitialGrid order g = Done (False, g') \<Longrightarrow>
   \<exists>pos \<in> set order. lookup g pos \<noteq> 46 \<and> g' = g(pos \<mapsto> 46)"
proof (induction order)
  case Nil
  then show ?case by simp
next
  case (Cons pos rest)
  from Cons.prems(1) have d: "pos \<in> dom g" and r: "set rest \<subseteq> dom g" by simp_all
  show ?case
  proof (cases "lookup g pos \<noteq> 46")
    case False
    with Cons.prems(2) have "validateInitialGrid rest g = Done (False, g')" by simp
    from Cons.IH [OF r this] show ?thesis by auto
  next
    case True
    with Cons.prems(2) obtain ok where
      v: "isValid (g(pos \<mapsto> 46)) pos (lookup g pos) = Done ok"
      and c: "(if \<not> ok then Done (False, g(pos \<mapsto> 46))
               else validateInitialGrid rest ((g(pos \<mapsto> 46))(pos \<mapsto> lookup g pos))) = Done (False, g')"
      by (auto simp: Let_def obind_Done_iff)
    show ?thesis
    proof (cases ok)
      case False
      with c True show ?thesis by auto
    next
      case True
      with c have "validateInitialGrid rest g = Done (False, g')"
        by (simp add: restore_cell' [OF d])
      from Cons.IH [OF r this] show ?thesis by auto
    qed
  qed
qed

lemma validate_True:
  "set order \<subseteq> dom g \<Longrightarrow> validateInitialGrid order g = Done (True, g') \<Longrightarrow>
   g' = g \<and> (\<forall>pos \<in> set order. lookup g pos \<noteq> 46 \<longrightarrow>
                isValid (g(pos \<mapsto> 46)) pos (lookup g pos) = Done True)"
proof (induction order)
  case Nil
  then show ?case by simp
next
  case (Cons pos rest)
  from Cons.prems(1) have d: "pos \<in> dom g" and r: "set rest \<subseteq> dom g" by simp_all
  show ?case
  proof (cases "lookup g pos \<noteq> 46")
    case False
    with Cons.prems(2) have "validateInitialGrid rest g = Done (True, g')" by simp
    from Cons.IH [OF r this] False show ?thesis by auto
  next
    case True
    with Cons.prems(2) obtain ok where
      v: "isValid (g(pos \<mapsto> 46)) pos (lookup g pos) = Done ok"
      and c: "(if \<not> ok then Done (False, g(pos \<mapsto> 46))
               else validateInitialGrid rest ((g(pos \<mapsto> 46))(pos \<mapsto> lookup g pos))) = Done (True, g')"
      by (auto simp: Let_def obind_Done_iff)
    from c have ok: ok by (cases ok) auto
    with c have "validateInitialGrid rest g = Done (True, g')"
      by (simp add: restore_cell' [OF d])
    from Cons.IH [OF r this] have g: "g' = g"
      and rest: "\<forall>pos \<in> set rest. lookup g pos \<noteq> 46 \<longrightarrow>
                isValid (g(pos \<mapsto> 46)) pos (lookup g pos) = Done True" by blast+
    from v ok have "isValid (g(pos \<mapsto> 46)) pos (lookup g pos) = Done True" by simp
    with g rest show ?thesis by (metis set_ConsD)
  qed
qed

lemma validate_complete:
  "set order \<subseteq> dom g \<Longrightarrow>
   \<forall>pos \<in> set order. lookup g pos \<noteq> 46 \<longrightarrow> isValid (g(pos \<mapsto> 46)) pos (lookup g pos) = Done True \<Longrightarrow>
   validateInitialGrid order g = Done (True, g)"
proof (induction order)
  case Nil
  then show ?case by simp
next
  case (Cons pos rest)
  from Cons.prems(1) have d: "pos \<in> dom g" and r: "set rest \<subseteq> dom g" by simp_all
  from Cons.prems(2) have "\<forall>pos \<in> set rest. lookup g pos \<noteq> 46 \<longrightarrow>
      isValid (g(pos \<mapsto> 46)) pos (lookup g pos) = Done True"
    by (meson list.set_intros(2))
  from Cons.IH [OF r this] have ih: "validateInitialGrid rest g = Done (True, g)" .
  show ?case
  proof (cases "lookup g pos \<noteq> 46")
    case False
    with ih show ?thesis by simp
  next
    case True
    with Cons.prems(2) have "isValid (g(pos \<mapsto> 46)) pos (lookup g pos) = Done True"
      by (meson list.set_intros(1))
    with True ih show ?thesis by (simp add: Let_def restore_cell' [OF d])
  qed
qed

lemma isValid_blanked:
  assumes "p \<in> set cells" "cellv g p \<noteq> 46"
  shows "isValid (g(keyp p \<mapsto> 46)) (keyp p) (cellv g p)
    = Done (\<not> (\<exists>q \<in> set cells. q \<noteq> p \<and> related p q \<and> cellv g q = cellv g p))"
proof -
  have "(\<exists>q \<in> set cells. related p q \<and> cellv (g(keyp p \<mapsto> 46)) q = cellv g p)
      \<longleftrightarrow> (\<exists>q \<in> set cells. q \<noteq> p \<and> related p q \<and> cellv g q = cellv g p)"
    using assms cellv_upd [OF _ assms(1), of _ g 46] by (metis (no_types))
  then show ?thesis by (simp add: isValid_cell [OF assms(1)])
qed

lemma noconflict_isValid:
  "noconflict g \<longleftrightarrow>
   (\<forall>p \<in> set cells. cellv g p \<noteq> 46 \<longrightarrow>
      isValid (g(keyp p \<mapsto> 46)) (keyp p) (cellv g p) = Done True)"
proof -
  have "\<And>p. p \<in> set cells \<Longrightarrow> cellv g p \<noteq> 46 \<Longrightarrow>
      (isValid (g(keyp p \<mapsto> 46)) (keyp p) (cellv g p) = Done True)
      = (\<forall>q \<in> set cells. q \<noteq> p \<and> related p q \<longrightarrow> cellv g q \<noteq> cellv g p)"
    by (simp add: isValid_blanked) blast
  then show ?thesis unfolding noconflict_def by (metis (no_types, lifting))
qed

lemma cellv_lookup: "lookup g (keyp p) = cellv g p"
  by (simp add: cellv_def)

lemma parse_ok_grid:
  assumes "ParseInput vorder eorder args = Done (Inr g)" and "set vorder = set allKeys"
  shows "parseRows args [1..9] (Map.empty, 0) = Inr (g, int (card (clueCells g)))
    \<and> dom g = set allKeys \<and> cellValues g \<and> 17 \<le> card (clueCells g) \<and> noconflict g"
proof -
  from assms(1) have len: "length args = 10"
    by (auto simp: ParseInput_def split: if_splits)
  obtain R where R: "parseRows args [1..9] (Map.empty, 0) = R" by blast
  from assms(1) obtain g0 c where R': "R = Inr (g0, c)"
    and c: "\<not> c < 17"
    and v: "obind (validateInitialGrid vorder g0) (\<lambda>(ok, g').
              if \<not> ok then Done (Inl ContainsConflicts)
              else if isEmptyGrid eorder g' then Done (Inl EntireGridEmpty)
              else Done (Inr g')) = Done (Inr g)"
    unfolding ParseInput_unfold [OF len R]
    by (auto split: sum.splits prod.splits if_splits)
  from R R' have p: "parseRows args [1..9] (Map.empty, 0) = Inr (g0, c)" by simp
  from parse_grid [OF p] have d: "dom g0 = keyp ` set cells"
    and cc: "c = int (card (clueCells g0))" and cv: "cellValues g0" by blast+
  from v obtain ok g' where v1: "validateInitialGrid vorder g0 = Done (ok, g')"
    and v2: "(if \<not> ok then Done (Inl ContainsConflicts)
              else if isEmptyGrid eorder g' then Done (Inl EntireGridEmpty)
              else Done (Inr g')) = Done (Inr g)"
    by (auto simp: obind_Done_iff)
  from v2 have ok: ok and gg: "g' = g" by (auto split: if_splits)
  have sub: "set vorder \<subseteq> dom g0" using assms(2) d by (simp add: allKeys_def)
  from validate_True [OF sub v1 [unfolded ok [THEN eqTrueI]]]
  have g0: "g = g0"
    and iv: "\<forall>pos \<in> set vorder. lookup g0 pos \<noteq> 46 \<longrightarrow>
        isValid (g0(pos \<mapsto> 46)) pos (lookup g0 pos) = Done True"
    using gg by simp_all
  have "\<forall>p \<in> set cells. cellv g0 p \<noteq> 46 \<longrightarrow>
      isValid (g0(keyp p \<mapsto> 46)) (keyp p) (cellv g0 p) = Done True"
  proof (intro ballI impI)
    fix p assume "p \<in> set cells" "cellv g0 p \<noteq> 46"
    then have "keyp p \<in> set vorder" "lookup g0 (keyp p) \<noteq> 46"
      using assms(2) by (simp_all add: allKeys_def cellv_lookup)
    with iv show "isValid (g0(keyp p \<mapsto> 46)) (keyp p) (cellv g0 p) = Done True"
      by (metis cellv_lookup)
  qed
  then have nc: "noconflict g0" by (simp add: noconflict_isValid)
  from c cc have "17 \<le> card (clueCells g0)" by simp
  with p d cv nc cc show ?thesis unfolding g0 by (simp add: allKeys_def)
qed

lemma box_start_cases:
  fixes i :: int
  assumes "65 \<le> i" "i \<le> 73"
  shows "65 + (i - 65) div 3 * 3 \<in> {65, 68, 71}"
proof -
  from assms have "(i - 65) div 3 = 0 \<or> (i - 65) div 3 = 1 \<or> (i - 65) div 3 = 2" by presburger
  then show ?thesis by auto
qed

lemma box_start_col_cases:
  fixes j :: int
  assumes "49 \<le> j" "j \<le> 57"
  shows "49 + (j - 49) div 3 * 3 \<in> {49, 52, 55}"
proof -
  from assms have "(j - 49) div 3 = 0 \<or> (j - 49) div 3 = 1 \<or> (j - 49) div 3 = 2" by presburger
  then show ?thesis by auto
qed

lemma units_cover:
  assumes "p \<in> set cells" "q \<in> set cells" "related p q"
  shows "\<exists>u \<in> set units. p \<in> set u \<and> q \<in> set u"
proof -
  obtain i j where p: "p = (i, j)" by (cases p)
  obtain i' j' where q: "q = (i', j')" by (cases q)
  from assms(1,2) have r: "65 \<le> i" "i \<le> 73" "49 \<le> j" "j \<le> 57" "65 \<le> i'" "i' \<le> 73" "49 \<le> j'" "j' \<le> 57"
    by (simp_all add: p q set_cells)
  from assms(3) consider "i = i'" | "j = j'" | "boxOf p = boxOf q"
    by (auto simp: related_def p q)
  then show ?thesis
  proof cases
    case 1
    have "map (Pair i) colRunes \<in> set rowUnits"
      unfolding rowUnits_def set_map set_rowRunes using r by (intro imageI) simp
    then have "map (Pair i) colRunes \<in> set units"
      by (simp only: units_def set_append Un_iff simp_thms)
    moreover have "p \<in> set (map (Pair i) colRunes)" "q \<in> set (map (Pair i) colRunes)"
      using r 1 by (simp_all add: p q set_colRunes)
    ultimately show ?thesis by blast
  next
    case 2
    have "map (\<lambda>i. (i, j)) rowRunes \<in> set colUnits"
      unfolding colUnits_def set_map set_colRunes using r by (intro imageI) simp
    then have "map (\<lambda>i. (i, j)) rowRunes \<in> set units"
      by (simp only: units_def set_append Un_iff simp_thms)
    moreover have "p \<in> set (map (\<lambda>i. (i, j)) rowRunes)" "q \<in> set (map (\<lambda>i. (i, j)) rowRunes)"
      using r 2 by (auto simp: p q set_rowRunes)
    ultimately show ?thesis by blast
  next
    case 3
    let ?a = "65 + (i - 65) div 3 * 3"
    let ?b = "49 + (j - 49) div 3 * 3"
    let ?u = "List.product [?a..?a + 2] [?b..?b + 2]"
    have "(?a, ?b) \<in> set (List.product [65, 68, 71] [49, 52, 55])"
      using box_start_cases [OF r(1,2)] box_start_col_cases [OF r(3,4)]
      unfolding set_product by (intro SigmaI) simp_all
    then have "(\<lambda>(a, b). List.product [a..a + 2] [b..b + 2]) (?a, ?b)
        \<in> set (map (\<lambda>(a, b). List.product [a..a + 2] [b..b + 2]) (List.product [65, 68, 71] [49, 52, 55]))"
      unfolding set_map by (rule imageI)
    then have "?u \<in> set boxUnits" by (simp only: boxUnits_def prod.case)
    then have "?u \<in> set units"
      by (simp only: units_def set_append Un_iff simp_thms)
    moreover have "p \<in> set ?u"
      using box_start [of i i] box_start_col [of j j] by (simp add: p)
    moreover have "q \<in> set ?u"
      using 3 box_start [of i' i] box_start_col [of j' j] by (simp add: p q boxOf_def)
    ultimately show ?thesis by blast
  qed
qed

lemma distinct_filter_map:
  assumes "distinct (filter P (map f u))" "p \<in> set u" "q \<in> set u" "P (f p)" "f p = f q"
  shows "p = q"
proof -
  have "filter P (map f u) = map f (filter (P \<circ> f) u)" by (simp add: filter_map)
  with assms(1) have "inj_on f (set (filter (P \<circ> f) u))" by (simp add: distinct_map)
  moreover have "p \<in> set (filter (P \<circ> f) u)" "q \<in> set (filter (P \<circ> f) u)"
    using assms(2-5) by simp_all
  ultimately show ?thesis using assms(5) by (meson inj_onD)
qed

lemma unitsOK_noconflict:
  assumes "unitsOK g"
  shows "noconflict g"
  unfolding noconflict_def
proof (intro ballI impI)
  fix p q assume pq: "p \<in> set cells" "q \<in> set cells"
    and h: "p \<noteq> q \<and> related p q \<and> cellv g p \<noteq> 46"
  then obtain u where u: "u \<in> set units" "p \<in> set u" "q \<in> set u"
    using units_cover by blast
  from assms u(1) have d: "distinct (filter (\<lambda>v. v \<noteq> 46) (map (cellv g) u))"
    by (simp add: unitsOK_def list_all_iff)
  show "cellv g p \<noteq> cellv g q"
  proof
    assume "cellv g p = cellv g q"
    from distinct_filter_map [OF d u(2,3) _ this] h show False by simp
  qed
qed

lemma parseRow_cells:
  assumes "parseRow i j bs (g, c) = Inr (g', c')" "1 \<le> i" "i \<le> 9" "j + length bs \<le> 9"
    and "p \<in> set cells"
  shows "cellv g' p =
    (if fst p = 64 + i \<and> 49 + int j \<le> snd p \<and> snd p < 49 + int j + int (length bs)
     then of_char (bs ! nat (snd p - 49 - int j)) else cellv g p)"
  using assms(1,4)
proof (induction bs arbitrary: j g c)
  case Nil
  then show ?case by simp
next
  case (Cons b bs)
  let ?ch = "of_char b :: int"
  let ?p0 = "(64 + i, 49 + int j)"
  let ?g1 = "g(keyp ?p0 \<mapsto> ?ch)"
  let ?c1 = "if ?ch \<noteq> 46 then c + 1 else c"
  from Cons.prems(2) have j9: "j < 9" by simp
  with assms(2,3) have p0: "?p0 \<in> set cells" by (simp add: set_cells)
  have pos: "runeString (rowNames ! nat (i - 1)) @ runeString (49 + int j) = keyp ?p0"
    using assms(2,3) by (simp add: rowNames_nth keyp_def key_def)
  from Cons.prems(1) have rec: "parseRow i (Suc j) bs (?g1, ?c1) = Inr (g', c')"
    by (auto simp: Let_def pos split: if_splits)
  have len: "Suc j + length bs \<le> 9" using Cons.prems(2) by simp
  note ih = Cons.IH [OF rec len]
  have g1: "cellv ?g1 p = (if p = ?p0 then ?ch else cellv g p)"
    by (rule cellv_upd [OF assms(5) p0])
  show ?case
  proof (cases "p = ?p0")
    case True
    then show ?thesis using ih g1 by simp
  next
    case False
    show ?thesis
    proof (cases "fst p = 64 + i \<and> 49 + int (Suc j) \<le> snd p \<and> snd p < 49 + int (Suc j) + int (length bs)")
      case True
      then have n: "nat (snd p - 49 - int j) = Suc (nat (snd p - 49 - int (Suc j)))" by linarith
      have e: "(b # bs) ! nat (snd p - 49 - int j) = bs ! nat (snd p - 49 - int (Suc j))"
        unfolding n by simp
      from True have T2: "fst p = 64 + i \<and> 49 + int j \<le> snd p
          \<and> snd p < 49 + int j + int (length (b # bs))" by simp
      from ih have A: "cellv g' p = of_char (bs ! nat (snd p - 49 - int (Suc j)))"
        by (rule trans) (rule if_P [OF True])
      show ?thesis unfolding A if_P [OF T2] e ..
    next
      case F2: False
      with False have "\<not> (fst p = 64 + i \<and> 49 + int j \<le> snd p \<and> snd p < 49 + int j + int (length (b # bs)))"
        by (cases p) auto
      then have F3: "\<not> (fst p = 64 + i \<and> 49 + int j \<le> snd p \<and> snd p < 49 + int j + int (length (b # bs)))" .
      from ih have A: "cellv g' p = cellv ?g1 p"
        by (rule trans) (rule if_not_P [OF F2])
      have B: "cellv ?g1 p = cellv g p" using g1 False by simp
      show ?thesis unfolding A B if_not_P [OF F3] ..
    qed
  qed
qed

lemma parseRows_cells:
  assumes "parseRows args [a..9] (g, c) = Inr (g', c')" "1 \<le> a" "a \<le> 10" "p \<in> set cells"
  shows "cellv g' p =
    (if 64 + a \<le> fst p then of_char (args ! nat (fst p - 64) ! nat (snd p - 49)) else cellv g p)"
  using assms(1,2,3)
proof (induction "nat (10 - a)" arbitrary: a g c)
  case 0
  then have a: "a = 10" by simp
  then have "[a..9] = []" by simp
  with "0.prems"(1) have "g' = g" by simp
  moreover have "\<not> 64 + a \<le> fst p" using a assms(4) by (auto simp: set_cells)
  ultimately show ?case by simp
next
  case (Suc n)
  from Suc.hyps(2) have a9: "a \<le> 9" by simp
  then have up: "[a..9] = a # [a + 1..9]" by (simp add: upto_rec1)
  from Suc.prems(1) obtain g1 c1 where
    len: "length (args ! nat a) = 9"
    and r1: "parseRow a 0 (args ! nat a) (g, c) = Inr (g1, c1)"
    and r2: "parseRows args [a + 1..9] (g1, c1) = Inr (g', c')"
    unfolding up by (auto simp: Let_def split: if_splits sum.splits)
  have l0: "0 + length (args ! nat a) \<le> 9" using len by simp
  have n: "n = nat (10 - (a + 1))" using Suc.hyps(2) by simp
  have ih: "cellv g' p = (if 64 + (a + 1) \<le> fst p
      then of_char (args ! nat (fst p - 64) ! nat (snd p - 49)) else cellv g1 p)"
    by (rule Suc.hyps(1) [OF n r2]) (use Suc.prems(2) a9 in simp_all)
  have row: "cellv g1 p = (if fst p = 64 + a \<and> 49 + int 0 \<le> snd p \<and> snd p < 49 + int 0 + int (length (args ! nat a))
      then of_char (args ! nat a ! nat (snd p - 49 - int 0)) else cellv g p)"
    by (rule parseRow_cells [OF r1 Suc.prems(2) a9 l0 assms(4)])
  from assms(4) have sp: "49 \<le> snd p" "snd p \<le> 57" by (auto simp: set_cells)
  show ?case
  proof (cases "fst p = 64 + a")
    case True
    then have "nat (fst p - 64) = nat a" by simp
    with True ih row sp len show ?thesis by simp
  next
    case False
    with ih row show ?thesis by auto
  qed
qed

lemma parsedGrid_ok:
  assumes "wellFormed args"
  shows "parseRows args [1..9] (Map.empty, 0) = Inr (parsedGrid args, clueChars (tl args))"
proof -
  from assms have len: "length args = 10"
    and rows: "\<forall>row \<in> set (tl args). length row = 9 \<and> (\<forall>b \<in> set row. validChar b)"
    by (simp_all add: wellFormed_def)
  have r: "map (\<lambda>i. args ! nat i) [1..9] = tl args"
    by (rule rows_of_args [OF len])
  have "\<forall>i \<in> set [1..9]. length (args ! nat i) = 9 \<and> (\<forall>b \<in> set (args ! nat i). validChar b)"
  proof
    fix i assume "i \<in> set [1..9]"
    moreover have "\<And>xs. i \<in> set xs \<Longrightarrow> args ! nat i \<in> set (map (\<lambda>i. args ! nat i) xs)"
      by simp
    ultimately have "args ! nat i \<in> set (map (\<lambda>i. args ! nat i) [1..9])"
      by blast
    then have "args ! nat i \<in> set (tl args)" by (simp only: r)
    with rows show "length (args ! nat i) = 9 \<and> (\<forall>b \<in> set (args ! nat i). validChar b)"
      by blast
  qed
  from parseRows_count [OF this, of Map.empty 0]
  obtain g' where "parseRows args [1..9] (Map.empty, 0)
      = Inr (g', 0 + clueChars (map (\<lambda>i. args ! nat i) [1..9]))"
    by blast
  then have p: "parseRows args [1..9] (Map.empty, 0) = Inr (g', clueChars (tl args))"
    by (simp only: r add_0)
  then have "parsedGrid args = g'" by (simp only: parsedGrid_def sum.case prod.case)
  with p show ?thesis by simp
qed

lemma parsedGrid_cell:
  assumes "wellFormed args" "65 \<le> i" "i \<le> 73" "49 \<le> j" "j \<le> 57"
  shows "lookup (parsedGrid args) [char_of i, char_of j]
    = of_char (args ! nat (i - 64) ! nat (j - 49))"
proof -
  have c: "(i, j) \<in> set cells" using assms(2-5) by (simp add: set_cells)
  from parseRows_cells [OF parsedGrid_ok [OF assms(1)] _ _ c]
  have "cellv (parsedGrid args) (i, j) = of_char (args ! nat (i - 64) ! nat (j - 49))"
    using assms(2) by simp
  then show ?thesis using c by (simp add: cellv_def keyp_def key_cell)
qed

lemma parsedGrid_dom:
  assumes "wellFormed args"
  shows "dom (parsedGrid args) = set allKeys"
  using parse_grid [OF parsedGrid_ok [OF assms]] by (simp add: allKeys_def)

lemma ParseInput_ok:
  assumes wf: "wellFormed args" and n: "17 \<le> clueChars (tl args)"
    and nc: "noconflict (parsedGrid args)"
    and vo: "set vorder = set allKeys" and eo: "set eorder = set allKeys"
  shows "ParseInput vorder eorder args = Done (Inr (parsedGrid args))"
proof -
  let ?g = "parsedGrid args"
  from wf have len: "length args = 10" by (simp add: wellFormed_def)
  note p = parsedGrid_ok [OF wf]
  from parse_grid [OF p] have d: "dom ?g = keyp ` set cells"
    and cc: "clueChars (tl args) = int (card (clueCells ?g))" by blast+
  have sub: "set vorder \<subseteq> dom ?g" using vo d by (simp add: allKeys_def)
  have "\<forall>pos \<in> set vorder. lookup ?g pos \<noteq> 46 \<longrightarrow>
      isValid (?g(pos \<mapsto> 46)) pos (lookup ?g pos) = Done True"
  proof (intro ballI impI)
    fix pos assume "pos \<in> set vorder" "lookup ?g pos \<noteq> 46"
    then obtain p where "p \<in> set cells" "pos = keyp p" "cellv ?g p \<noteq> 46"
      using vo by (auto simp: allKeys_def cellv_def)
    with nc show "isValid (?g(pos \<mapsto> 46)) pos (lookup ?g pos) = Done True"
      by (simp add: noconflict_isValid cellv_lookup)
  qed
  from validate_complete [OF sub this]
  have v: "validateInitialGrid vorder ?g = Done (True, ?g)" .
  from n cc have "clueCells ?g \<noteq> {}" by auto
  then obtain p where "p \<in> set cells" "cellv ?g p \<noteq> 46" by (auto simp: clueCells_def)
  then have e: "\<not> isEmptyGrid eorder ?g"
    using eo by (auto simp: isEmptyGrid_def allKeys_def cellv_def)
  show ?thesis
    unfolding ParseInput_unfold [OF len p] using n v e by simp
qed

lemma wf_argsA: "wellFormed argsA"
  by (simp add: wellFormed_def argsA_def validChar_def)

lemma clues_argsA: "clueChars (tl argsA) = 80"
  by (simp add: clueChars_def argsA_def)

lemma cell_gridA:
  "65 \<le> i \<Longrightarrow> i \<le> 73 \<Longrightarrow> 49 \<le> j \<Longrightarrow> j \<le> 57 \<Longrightarrow>
   cellv gridA (i, j) = of_char (argsA ! nat (i - 64) ! nat (j - 49))"
  unfolding gridA_def cellv_def keyp_def fst_conv snd_conv
  by (simp add: key_cell set_cells parsedGrid_cell [OF wf_argsA])

lemma unitsOK_gridA: "unitsOK gridA"
  by (simp add: unitsOK_def units_def rowUnits_def colUnits_def boxUnits_def rowRunes_def colRunes_def
      upto_rec1 cell_gridA argsA_def)

lemma parse_argsA: "ParseInput allKeys allKeys argsA = Done (Inr gridA)"
  unfolding gridA_def
  by (rule ParseInput_ok [OF wf_argsA _ unitsOK_noconflict [OF unitsOK_gridA [unfolded gridA_def]]])
     (simp_all add: clues_argsA)

section \<open>Claims about the parser\<close>

lemma wf_argsFew: "wellFormed argsFew"
  by (simp add: wellFormed_def argsFew_def validChar_def)

lemma clues_argsFew: "clueChars (tl argsFew) = 2"
  by (simp add: clueChars_def argsFew_def)

lemma wf_argsEmpty: "wellFormed argsEmpty"
  by (simp add: wellFormed_def argsEmpty_def validChar_def)

lemma clues_argsEmpty: "clueChars (tl argsEmpty) = 0"
  by (simp add: clueChars_def argsEmpty_def)

lemma wf_argsBad: "wellFormed argsBad"
  by (simp add: wellFormed_def argsBad_def validChar_def)

lemma allKeys_Cons: "allKeys = ''A1'' # map keyp (tl cells)"
  by (simp add: allKeys_def cells_def rowRunes_def colRunes_def upto_rec1 keyp_def key_def
      runeString_def char_of_def)

lemma keyp_A1: "keyp (65, 49) = ''A1''"
  by (simp add: keyp_def key_def runeString_def char_of_def)

text \<open>
  C6. For arguments of the right shape whose rows hold fewer than 17 clue characters,
  \<open>ParseInput\<close> returns the error "less than 17 clues", with the number of clues; the
  conflict check is never reached, so it does not matter whether the clues conflict.
\<close>

theorem ParseInput_too_few_clues:
  assumes "wellFormed args" and "clueChars (tl args) < 17"
  shows "ParseInput vorder eorder args = Done (Inl (LessThan17Clues (clueChars (tl args))))"
  using assms by (intro too_few) (simp_all add: wellFormed_def)

theorem ParseInput_too_few_clues_witness:
  "wellFormed argsFew \<and> clueChars (tl argsFew) < 17
   \<and> ParseInput allKeys allKeys argsFew = Done (Inl (LessThan17Clues 2))"
  using ParseInput_too_few_clues [of argsFew allKeys allKeys]
  by (simp add: wf_argsFew clues_argsFew)

text \<open>
  C10. Whenever \<open>ParseInput\<close> returns a grid (the conflict check having visited the 81
  keys of the map, in any order), the grid has exactly the 81 keys \<open>"A1"\<close> to \<open>"I9"\<close>,
  every value is a digit or the dot, at least 17 cells are clues, and no value occurs
  twice in a row, a column or a box.
\<close>

theorem ParseInput_result:
  assumes "ParseInput vorder eorder args = Done (Inr g)" and "set vorder = set allKeys"
  shows "dom g = set allKeys \<and> cellValues g \<and> 17 \<le> card (clueCells g) \<and> noconflict g"
  using parse_ok_grid [OF assms] by blast

theorem ParseInput_result_witness:
  "ParseInput allKeys allKeys argsA = Done (Inr gridA) \<and> set allKeys = set allKeys
   \<and> dom gridA = set allKeys \<and> cellValues gridA \<and> 17 \<le> card (clueCells gridA)
   \<and> noconflict gridA"
  using ParseInput_result [OF parse_argsA refl] parse_argsA by simp

text \<open>
  C5. On the grid of 81 blanks \<open>ParseInput\<close> returns the error "less than 17 clues (only
  0 clues)": the clue count is tested first, and \<open>isEmptyGrid\<close> with its error "the
  entire grid is empty" is never reached.
\<close>

theorem ParseInput_empty_grid:
  "ParseInput vorder eorder argsEmpty = Done (Inl (LessThan17Clues 0))"
  using too_few [of argsEmpty vorder eorder] wf_argsEmpty
  by (simp add: wellFormed_def clues_argsEmpty)

text \<open>
  C7. On the grid \<open>gridBad\<close>, whose row A holds 9 at A1 and at A2, \<open>validateInitialGrid\<close>
  blanks A1, finds the conflict and returns \<open>false\<close> with A1 still blank: the map it
  was given held 9 there.
\<close>

theorem validateInitialGrid_conflict_mutates:
  "validateInitialGrid allKeys gridBad = Done (False, gridBad(''A1'' \<mapsto> 46))
   \<and> gridBad ''A1'' = Some 57"
proof -
  have c: "(65, 49) \<in> set cells" "(65, 50) \<in> set cells" by (simp_all add: set_cells)
  have l1: "lookup gridBad ''A1'' = 57"
    using parsedGrid_cell [OF wf_argsBad, of 65 49]
    by (simp add: gridBad_def argsBad_def char_of_def)
  have l2: "cellv gridBad (65, 50) = 57"
    using parsedGrid_cell [OF wf_argsBad, of 65 50] c(2)
    by (simp add: gridBad_def argsBad_def cellv_def keyp_def key_cell)
  have d: "''A1'' \<in> dom gridBad"
    using parsedGrid_dom [OF wf_argsBad] by (simp add: gridBad_def allKeys_Cons)
  with l1 have s: "gridBad ''A1'' = Some 57" by (auto simp: lookup_def)
  have "cellv (gridBad(keyp (65, 49) \<mapsto> 46)) (65, 50) = 57"
    using cellv_upd [OF c(2) c(1), of gridBad 46] l2 by simp
  moreover have "related (65, 49) (65, 50)" by (simp add: related_def)
  ultimately have "\<exists>q \<in> set cells. related (65, 49) q \<and> cellv (gridBad(keyp (65, 49) \<mapsto> 46)) q = 57"
    using c(2) by blast
  then have "isValid (gridBad(keyp (65, 49) \<mapsto> 46)) (keyp (65, 49)) 57 = Done False"
    by (simp add: isValid_cell [OF c(1)])
  then have "isValid (gridBad(''A1'' \<mapsto> 46)) ''A1'' 57 = Done False"
    by (simp only: keyp_A1)
  then have "validateInitialGrid (''A1'' # map keyp (tl cells)) gridBad
      = Done (False, gridBad(''A1'' \<mapsto> 46))"
    by (simp add: l1 Let_def)
  with s show ?thesis by (simp only: allKeys_Cons simp_thms)
qed

end
